theory Spec2Isabelle
  imports Main "HOL-Library.Word"
begin

section \<open>JavaScript strings and arrays\<close>

text \<open>
  A JavaScript string is a sequence of 16-bit code units; \<open>length\<close>, \<open>indexOf\<close>,
  \<open>substring\<close> and a regular expression without the \<open>u\<close> flag all work on code units.
  \<open>cu\<close> embeds an ASCII character, \<open>js\<close> an ASCII literal.
\<close>

type_synonym jschar = "16 word"
type_synonym jsstring = "jschar list"

definition cu :: "char \<Rightarrow> jschar" where
  "cu c = of_nat (of_char c)"

definition js :: "string \<Rightarrow> jsstring" where
  "js = map cu"

text \<open>
  \<open>indexOf\<close> of a string (searching the one-character string "/") and of an array
  (searching an object, compared by identity): the first index holding the element,
  \<open>-1\<close> when there is none.
\<close>

fun indexOf_from :: "'a list \<Rightarrow> 'a \<Rightarrow> int \<Rightarrow> int" where
  "indexOf_from [] x i = - 1"
| "indexOf_from (y # ys) x i = (if y = x then i else indexOf_from ys x (i + 1))"

definition indexOf :: "'a list \<Rightarrow> 'a \<Rightarrow> int" where
  "indexOf xs x = indexOf_from xs x 0"

text \<open>
  \<open>String.prototype.substring(start, end)\<close>: both arguments are clamped to
  \<open>[0, length]\<close> and swapped when \<open>start > end\<close>; with \<open>end\<close> omitted it is the length.
\<close>

definition substring :: "jsstring \<Rightarrow> int \<Rightarrow> int \<Rightarrow> jsstring" where
  "substring s a b =
     (let n = int (length s);
          a' = max 0 (min a n);
          b' = max 0 (min b n);
          lo = min a' b';
          hi = max a' b'
      in take (nat (hi - lo)) (drop (nat lo) s))"

definition substring_from :: "jsstring \<Rightarrow> int \<Rightarrow> jsstring" where
  "substring_from s a = substring s a (int (length s))"

text \<open>Reading an array at an index: \<open>None\<close> is JavaScript's \<open>undefined\<close>.\<close>

definition at :: "'a list \<Rightarrow> int \<Rightarrow> 'a option" where
  "at xs i = (if 0 \<le> i \<and> i < int (length xs) then Some (xs ! nat i) else None)"

text \<open>\<open>Array.prototype.splice(start, deleteCount)\<close> with no items to insert.\<close>

definition splice :: "'a list \<Rightarrow> int \<Rightarrow> int \<Rightarrow> 'a list" where
  "splice xs start cnt =
     (let n = int (length xs);
          st = (if start < 0 then max (n + start) 0 else min start n);
          dc = min (max cnt 0) (n - st)
      in take (nat st) xs @ drop (nat (st + dc)) xs)"

section \<open>Regular expressions\<close>

text \<open>
  The syntax of the regular expression literals of the controller. A class \<open>[...]\<close> is a
  list of inclusive ranges (a single character \<open>c\<close> is the range \<open>(c, c)\<close>); \<open>.\<close> matches
  every code unit but the four line terminators. Every literal of the controller is of the
  form \<open>/^R$/\<close> with no flag, so \<open>test\<close> answers whether the whole string is in the language
  of \<open>R\<close>; it is computed here with derivatives.
\<close>

datatype regex =
    RFail
  | REps
  | RChar jschar
  | RDot
  | RClass "(jschar \<times> jschar) list"
  | RAlt regex regex
  | RSeq regex regex
  | RStar regex
  | ROpt regex

definition isLineTerminator :: "jschar \<Rightarrow> bool" where
  "isLineTerminator c \<longleftrightarrow> c = 0x000A \<or> c = 0x000D \<or> c = 0x2028 \<or> c = 0x2029"

fun inClass :: "(jschar \<times> jschar) list \<Rightarrow> jschar \<Rightarrow> bool" where
  "inClass [] c = False"
| "inClass ((lo, hi) # rs) c = ((lo \<le> c \<and> c \<le> hi) \<or> inClass rs c)"

fun nullable :: "regex \<Rightarrow> bool" where
  "nullable RFail = False"
| "nullable REps = True"
| "nullable (RChar a) = False"
| "nullable RDot = False"
| "nullable (RClass rs) = False"
| "nullable (RAlt r q) = (nullable r \<or> nullable q)"
| "nullable (RSeq r q) = (nullable r \<and> nullable q)"
| "nullable (RStar r) = True"
| "nullable (ROpt r) = True"

fun deriv :: "jschar \<Rightarrow> regex \<Rightarrow> regex" where
  "deriv c RFail = RFail"
| "deriv c REps = RFail"
| "deriv c (RChar a) = (if c = a then REps else RFail)"
| "deriv c RDot = (if isLineTerminator c then RFail else REps)"
| "deriv c (RClass rs) = (if inClass rs c then REps else RFail)"
| "deriv c (RAlt r q) = RAlt (deriv c r) (deriv c q)"
| "deriv c (RSeq r q) =
     (if nullable r then RAlt (RSeq (deriv c r) q) (deriv c q) else RSeq (deriv c r) q)"
| "deriv c (RStar r) = RSeq (deriv c r) (RStar r)"
| "deriv c (ROpt r) = deriv c r"

fun matches :: "regex \<Rightarrow> jsstring \<Rightarrow> bool" where
  "matches r [] = nullable r"
| "matches r (c # s) = matches (deriv c r) s"

definition test :: "regex \<Rightarrow> jsstring \<Rightarrow> bool" where
  "test r s = matches r s"

definition rng :: "char \<Rightarrow> char \<Rightarrow> jschar \<times> jschar" where
  "rng a b = (cu a, cu b)"

definition one :: "char \<Rightarrow> jschar \<times> jschar" where
  "one a = (cu a, cu a)"

text \<open>\<open>/^(.*\/.*)$/\<close>\<close>

definition PrefixPattern :: regex where
  "PrefixPattern = RSeq (RStar RDot) (RSeq (RChar (cu CHR ''/'')) (RStar RDot))"

text \<open>\<open>/^[a-z0-9]([-a-z0-9]*[a-z0-9])?(\.[a-z0-9]([-a-z0-9]*[a-z0-9])?)*$/\<close>\<close>

definition labelKeyPrefixPattern :: regex where
  "labelKeyPrefixPattern =
     (let lower = RClass [rng CHR ''a'' CHR ''z'', rng CHR ''0'' CHR ''9''];
          inner = RClass [one CHR ''-'', rng CHR ''a'' CHR ''z'', rng CHR ''0'' CHR ''9''];
          segment = RSeq lower (ROpt (RSeq (RStar inner) lower))
      in RSeq segment (RStar (RSeq (RChar (cu CHR ''.'')) segment)))"

text \<open>\<open>/^([A-Za-z0-9][-A-Za-z0-9_.]*)?[A-Za-z0-9]$/\<close>\<close>

definition labelKeyNamePattern :: regex where
  "labelKeyNamePattern =
     (let alnum = RClass [rng CHR ''A'' CHR ''Z'', rng CHR ''a'' CHR ''z'',
                          rng CHR ''0'' CHR ''9''];
          inner = RClass [one CHR ''-'', rng CHR ''A'' CHR ''Z'', rng CHR ''a'' CHR ''z'',
                          rng CHR ''0'' CHR ''9'', one CHR ''_'', one CHR ''.'']
      in RSeq (ROpt (RSeq alnum (RStar inner))) alnum)"

section \<open>The data model\<close>

text \<open>
  Labels are objects: the controller and its list hold references, and two references are
  the same label exactly when they are equal (\<open>===\<close>, \<open>!==\<close> and \<open>indexOf\<close> compare
  identity). The store \<open>heap\<close> gives every reference its object; \<open>nextRef\<close> is the
  reference that the next \<open>new\<close> returns.
\<close>

type_synonym ref = nat

text \<open>
  Modelled from the spec: the class \<open>DeployLabel\<close> (imported from \<open>./deploylabel\<close>) is
  "LabelEntry: { key: string, value: () -> string, editable: boolean }"; \<open>valueFn\<close> is the
  accessor \<open>value()\<close>.
\<close>

record DeployLabel =
  key :: jsstring
  valueFn :: "unit \<Rightarrow> jsstring"
  editable :: bool

text \<open>
  Modelled from the spec: the constructor \<open>new DeployLabel()\<close> builds
  "a new blank LabelEntry (key = "", value = "", editable = true)".
\<close>

definition new_DeployLabel :: DeployLabel where
  "new_DeployLabel = \<lparr>key = [], valueFn = (\<lambda>_. []), editable = True\<rparr>"

text \<open>The controller's fields \<open>this.label\<close> and \<open>this.labels\<close>, with the store.\<close>

record state =
  heap :: "ref \<Rightarrow> DeployLabel"
  nextRef :: ref
  label :: ref
  labels :: "ref list"

text \<open>
  The part of \<open>angular.FormController\<close> that the controller uses: the control
  \<open>labelForm.key\<close>, on which \<open>$setValidity(name, isValid)\<close> records a flag under a name.
  A form may lack a control of that name: then \<open>labelForm.key\<close> is \<open>undefined\<close>, here
  \<open>None\<close>. The argument of \<open>check\<close> is \<open>undefined\<close>, \<open>null\<close> or a form.
\<close>

record NgModelController =
  validity :: "string \<rightharpoonup> bool"

record FormController =
  keyControl :: "NgModelController option"

datatype formHandle = Undefined | Null | Form FormController

definition setValidity :: "string \<Rightarrow> bool \<Rightarrow> NgModelController \<Rightarrow> NgModelController" where
  "setValidity name isValid elem = elem\<lparr>validity := (validity elem)(name \<mapsto> isValid)\<rparr>"

datatype error = TypeError

section \<open>The controller\<close>

text \<open>
  The methods keep their names, without the trailing underscore of the private ones.
\<close>

definition isRemovable :: "state \<Rightarrow> bool" where
  "isRemovable s =
     (let lastElement = at (labels s) (int (length (labels s)) - 1)
      in editable (heap s (label s)) \<and> Some (label s) \<noteq> lastElement)"

definition deleteLabel :: "state \<Rightarrow> state" where
  "deleteLabel s =
     (let rowIdx = indexOf (labels s) (label s)
      in if rowIdx > - 1 then s\<lparr>labels := splice (labels s) rowIdx 1\<rparr> else s)"

text \<open>Reading \<open>label.key\<close> of \<open>undefined\<close> throws a TypeError.\<close>

definition isFilled :: "state \<Rightarrow> ref option \<Rightarrow> error + bool" where
  "isFilled s l =
     (case l of
        None \<Rightarrow> Inl TypeError
      | Some r \<Rightarrow>
          Inr (length (key (heap s r)) \<noteq> 0 \<and> length (valueFn (heap s r) ()) \<noteq> 0))"

definition addNewLabel :: "state \<Rightarrow> state" where
  "addNewLabel s =
     s\<lparr>heap := (heap s)(nextRef s := new_DeployLabel),
       nextRef := Suc (nextRef s),
       labels := labels s @ [nextRef s]\<rparr>"

definition addIfNeeded :: "state \<Rightarrow> error + state" where
  "addIfNeeded s =
     (let lastLabel = at (labels s) (int (length (labels s)) - 1)
      in case isFilled s lastLabel of
           Inl e \<Rightarrow> Inl e
         | Inr filled \<Rightarrow> Inr (if filled then addNewLabel s else s))"

definition isKeyDuplicated :: "state \<Rightarrow> bool" where
  "isKeyDuplicated s =
     (let duplications =
        fold (\<lambda>l d. if length (key (heap s (label s))) \<noteq> 0
                        \<and> key (heap s l) = key (heap s (label s))
                     then d + 1 else d)
             (labels s) (0 :: nat)
      in duplications > 1)"

definition matchesKeyPrefixPattern :: "state \<Rightarrow> bool \<Rightarrow> int \<Rightarrow> bool" where
  "matchesKeyPrefixPattern s isPrefixed slashPosition =
     (let labelPrefix = (if isPrefixed then substring (key (heap s (label s))) 0 slashPosition
                         else js ''valid-pattern'')
      in test labelKeyPrefixPattern labelPrefix)"

definition matchesKeyNamePattern :: "state \<Rightarrow> bool \<Rightarrow> int \<Rightarrow> bool" where
  "matchesKeyNamePattern s isPrefixed slashPosition =
     (let labelName = (if isPrefixed
                       then substring_from (key (heap s (label s))) (slashPosition + 1)
                       else key (heap s (label s)))
      in test labelKeyNamePattern labelName)"

definition matchesKeyPrefixLength :: "state \<Rightarrow> bool \<Rightarrow> int \<Rightarrow> bool" where
  "matchesKeyPrefixLength s isPrefixed slashPosition =
     (let maxLength = 253;
          labelPrefix = (if isPrefixed then substring (key (heap s (label s))) 0 slashPosition
                         else [])
      in length labelPrefix \<le> maxLength)"

definition matchesKeyNameLength :: "state \<Rightarrow> bool \<Rightarrow> int \<Rightarrow> bool" where
  "matchesKeyNameLength s isPrefixed slashPosition =
     (let maxLength = 63;
          labelName = (if isPrefixed
                       then substring_from (key (heap s (label s))) (slashPosition + 1)
                       else key (heap s (label s)))
      in length labelName \<le> maxLength)"

text \<open>The two locals of \<open>validateKey_\<close> that every pattern and length check receives.\<close>

definition isPrefixed :: "jsstring \<Rightarrow> bool" where
  "isPrefixed k = test PrefixPattern k"

definition slashPosition :: "jsstring \<Rightarrow> int" where
  "slashPosition k = (if isPrefixed k then indexOf k (cu CHR ''/'') else - 1)"

text \<open>
  \<open>angular.isDefined\<close> is false for \<open>undefined\<close> only: for \<open>null\<close> the read of
  \<open>labelForm.key\<close> throws a TypeError, and for a form without a key control the first
  \<open>elem.$setValidity\<close> does, after the five checks were computed and before any flag
  was recorded. The result is the form with its flags, or the error.
\<close>

definition validateKey :: "formHandle \<Rightarrow> state \<Rightarrow> error + formHandle" where
  "validateKey labelForm s =
     (case labelForm of
        Undefined \<Rightarrow> Inr Undefined
      | Null \<Rightarrow> Inl TypeError
      | Form form \<Rightarrow>
          (let elem = keyControl form;
               p = isPrefixed (key (heap s (label s)));
               pos = slashPosition (key (heap s (label s)));
               isUnique = \<not> isKeyDuplicated s;
               isKeyPrefixPatternOk = matchesKeyPrefixPattern s p pos;
               isKeyNamePatternOk = matchesKeyNamePattern s p pos;
               isKeyPrefixLengthOk = matchesKeyPrefixLength s p pos;
               isKeyNameLengthOk = matchesKeyNameLength s p pos
           in case elem of
                None \<Rightarrow> Inl TypeError
              | Some elem \<Rightarrow>
                  (let elem = setValidity ''unique'' isUnique elem;
                       elem = setValidity ''prefixPattern'' isKeyPrefixPatternOk elem;
                       elem = setValidity ''namePattern'' isKeyNamePatternOk elem;
                       elem = setValidity ''prefixLength'' isKeyPrefixLengthOk elem;
                       elem = setValidity ''nameLength'' isKeyNameLengthOk elem
                   in Inr (Form (form\<lparr>keyControl := Some elem\<rparr>)))))"

text \<open>
  \<open>check\<close> gives what the call did (the form with its flags, or the error thrown) and
  the state it left: a label that \<open>addIfNeeded_\<close> pushed stays in the list when
  \<open>validateKey_\<close> throws afterwards.
\<close>

definition check :: "formHandle \<Rightarrow> state \<Rightarrow> (error + formHandle) \<times> state" where
  "check labelForm s =
     (case addIfNeeded s of
        Inl e \<Rightarrow> (Inl e, s)
      | Inr s' \<Rightarrow> (validateKey labelForm s', s'))"

section \<open>Vocabulary of the properties\<close>

text \<open>
  The flag that a run of \<open>check\<close> left under a name; the state with which it returned,
  when it did not throw; the state it left, thrown or not; and the error it threw.
\<close>

definition reported :: "(error + formHandle) \<times> state \<Rightarrow> string \<Rightarrow> bool option" where
  "reported res name =
     (case fst res of
        Inr (Form form) \<Rightarrow>
          (case keyControl form of Some elem \<Rightarrow> validity elem name | None \<Rightarrow> None)
      | _ \<Rightarrow> None)"

definition returned :: "(error + formHandle) \<times> state \<Rightarrow> state option" where
  "returned res = (case fst res of Inr form \<Rightarrow> Some (snd res) | Inl e \<Rightarrow> None)"

definition stateAfter :: "(error + formHandle) \<times> state \<Rightarrow> state" where
  "stateAfter res = snd res"

definition thrown :: "(error + formHandle) \<times> state \<Rightarrow> error option" where
  "thrown res = (case fst res of Inl e \<Rightarrow> Some e | Inr form \<Rightarrow> None)"

text \<open>
  The handles on which \<open>validateKey_\<close> does not throw: \<open>undefined\<close>, and a form that has
  its key control.
\<close>

fun usable :: "formHandle \<Rightarrow> bool" where
  "usable Undefined = True"
| "usable Null = False"
| "usable (Form form) = (keyControl form \<noteq> None)"

text \<open>
  In a well-formed store every reference that the controller holds was returned by an
  earlier \<open>new\<close>.
\<close>

definition allocated :: "state \<Rightarrow> bool" where
  "allocated s \<longleftrightarrow> label s < nextRef s \<and> list_all (\<lambda>r. r < nextRef s) (labels s)"

text \<open>
  A store holding the given labels, in this order, as the controller's list, with the
  label at index \<open>cur\<close> as the current one; and a form on which no flag is set yet.
\<close>

definition stateOf :: "DeployLabel list \<Rightarrow> nat \<Rightarrow> state" where
  "stateOf ls cur =
     \<lparr>heap = (\<lambda>r. if r < length ls then ls ! r else new_DeployLabel),
      nextRef = length ls,
      label = cur,
      labels = [0..<length ls]\<rparr>"

definition entry :: "string \<Rightarrow> string \<Rightarrow> bool \<Rightarrow> DeployLabel" where
  "entry k v e = \<lparr>key = js k, valueFn = (\<lambda>_. js v), editable = e\<rparr>"

definition emptyForm :: FormController where
  "emptyForm = \<lparr>keyControl = Some \<lparr>validity = Map.empty\<rparr>\<rparr>"

text \<open>
  The spec's words: the prefix is the portion of a key before the first "/" (the empty
  string if there is none), the name the portion after it (the whole key if there is
  none).
\<close>

definition slash :: jschar where
  "slash = cu CHR ''/''"

definition prefixOf :: "jsstring \<Rightarrow> jsstring" where
  "prefixOf k = (if slash \<in> set k then takeWhile (\<lambda>c. c \<noteq> slash) k else [])"

definition nameOf :: "jsstring \<Rightarrow> jsstring" where
  "nameOf k = (if slash \<in> set k then tl (dropWhile (\<lambda>c. c \<noteq> slash) k) else k)"

text \<open>
  The spec's words for the name pattern: an alphanumeric character of either case,
  optionally followed by alphanumerics, \<open>-\<close>, \<open>_\<close> and \<open>.\<close>, ending in an alphanumeric
  character; \<open>claimedName\<close> also admits the empty name, as the spec does.
\<close>

definition alphanumeric :: "jschar \<Rightarrow> bool" where
  "alphanumeric c \<longleftrightarrow>
     c \<in> set (js ''ABCDEFGHIJKLMNOPQRSTUVWXYZabcdefghijklmnopqrstuvwxyz0123456789'')"

definition nameChar :: "jschar \<Rightarrow> bool" where
  "nameChar c \<longleftrightarrow> alphanumeric c \<or> c \<in> set (js ''-_.'')"

definition wellFormedName :: "jsstring \<Rightarrow> bool" where
  "wellFormedName n \<longleftrightarrow>
     n \<noteq> [] \<and> alphanumeric (hd n) \<and> alphanumeric (last n) \<and> list_all nameChar n"

definition claimedName :: "jsstring \<Rightarrow> bool" where
  "claimedName n \<longleftrightarrow> n = [] \<or> wellFormedName n"

text \<open>Keys free of the line terminators that \<open>.\<close> refuses.\<close>

definition singleLine :: "jsstring \<Rightarrow> bool" where
  "singleLine k \<longleftrightarrow> \<not> list_ex isLineTerminator k"

text \<open>
  The spec's words: a filled entry has a non-empty key and a non-empty \<open>value()\<close>; a
  blank entry has key "", value "" and is editable.
\<close>

definition filled :: "DeployLabel \<Rightarrow> bool" where
  "filled l \<longleftrightarrow> key l \<noteq> [] \<and> valueFn l () \<noteq> []"

definition blank :: "DeployLabel \<Rightarrow> bool" where
  "blank l \<longleftrightarrow> key l = [] \<and> valueFn l () = [] \<and> editable l"

text \<open>The number of entries of the list whose key is the current entry's key.\<close>

definition sameKeyCount :: "state \<Rightarrow> nat" where
  "sameKeyCount s =
     length (filter (\<lambda>r. key (heap s r) = key (heap s (label s))) (labels s))"

text \<open>The five names under which \<open>validateKey_\<close> reports.\<close>

definition flagNames :: "string list" where
  "flagNames = [''unique'', ''prefixPattern'', ''namePattern'', ''prefixLength'', ''nameLength'']"

section \<open>The languages of the regular expressions\<close>

definition catLang :: "'a list set \<Rightarrow> 'a list set \<Rightarrow> 'a list set" where
  "catLang A B = {u @ v | u v. u \<in> A \<and> v \<in> B}"

inductive_set repLang :: "'a list set \<Rightarrow> 'a list set" for A :: "'a list set" where
  rep_none: "[] \<in> repLang A"
| rep_more: "u \<in> A \<Longrightarrow> v \<in> repLang A \<Longrightarrow> u @ v \<in> repLang A"

fun denote :: "regex \<Rightarrow> jsstring set" where
  "denote RFail = {}"
| "denote REps = {[]}"
| "denote (RChar a) = {[a]}"
| "denote RDot = {[c] | c. \<not> isLineTerminator c}"
| "denote (RClass rs) = {[c] | c. inClass rs c}"
| "denote (RAlt r q) = denote r \<union> denote q"
| "denote (RSeq r q) = catLang (denote r) (denote q)"
| "denote (RStar r) = repLang (denote r)"
| "denote (ROpt r) = insert [] (denote r)"

section \<open>The derivative matcher decides membership in the language\<close>

lemma catLang_nil_iff: "[] \<in> catLang A B \<longleftrightarrow> [] \<in> A \<and> [] \<in> B"
  by (auto simp: catLang_def)

lemma nullable_denote: "nullable r \<longleftrightarrow> [] \<in> denote r"
  by (induction r) (auto simp: catLang_nil_iff intro: repLang.rep_none)

lemma Cons_in_catLang:
  "c # w \<in> catLang A B \<longleftrightarrow>
     (\<exists>u v. w = u @ v \<and> c # u \<in> A \<and> v \<in> B) \<or> ([] \<in> A \<and> c # w \<in> B)"
proof
  assume "c # w \<in> catLang A B"
  then obtain x y where xy: "c # w = x @ y" "x \<in> A" "y \<in> B"
    by (auto simp: catLang_def)
  show "(\<exists>u v. w = u @ v \<and> c # u \<in> A \<and> v \<in> B) \<or> ([] \<in> A \<and> c # w \<in> B)"
  proof (cases x)
    case Nil
    with xy show ?thesis by simp
  next
    case (Cons a x')
    with xy have "w = x' @ y" "c # x' \<in> A" by simp_all
    with xy(3) show ?thesis by blast
  qed
next
  assume "(\<exists>u v. w = u @ v \<and> c # u \<in> A \<and> v \<in> B) \<or> ([] \<in> A \<and> c # w \<in> B)"
  then show "c # w \<in> catLang A B"
  proof
    assume "\<exists>u v. w = u @ v \<and> c # u \<in> A \<and> v \<in> B"
    then obtain u v where "w = u @ v" "c # u \<in> A" "v \<in> B" by blast
    then have "c # w = (c # u) @ v" "c # u \<in> A" "v \<in> B" by simp_all
    then show ?thesis unfolding catLang_def by blast
  next
    assume "[] \<in> A \<and> c # w \<in> B"
    then have "c # w = [] @ (c # w)" "[] \<in> A" "c # w \<in> B" by simp_all
    then show ?thesis unfolding catLang_def by blast
  qed
qed

lemma repLang_Cons_split:
  assumes "x \<in> repLang A" and "x = c # w"
  shows "\<exists>u v. w = u @ v \<and> c # u \<in> A \<and> v \<in> repLang A"
  using assms
proof (induction arbitrary: w rule: repLang.induct)
  case rep_none
  then show ?case by simp
next
  case (rep_more u v)
  show ?case
  proof (cases u)
    case Nil
    with rep_more show ?thesis by simp
  next
    case (Cons a u')
    with rep_more.prems have "w = u' @ v" "a = c" by simp_all
    with rep_more.hyps Cons show ?thesis by blast
  qed
qed

lemma Cons_in_repLang:
  "c # w \<in> repLang A \<longleftrightarrow> (\<exists>u v. w = u @ v \<and> c # u \<in> A \<and> v \<in> repLang A)"
proof
  assume "c # w \<in> repLang A"
  then show "\<exists>u v. w = u @ v \<and> c # u \<in> A \<and> v \<in> repLang A"
    by (rule repLang_Cons_split) simp
next
  assume "\<exists>u v. w = u @ v \<and> c # u \<in> A \<and> v \<in> repLang A"
  then obtain u v where uv: "w = u @ v" "c # u \<in> A" "v \<in> repLang A" by blast
  from uv(2,3) have "(c # u) @ v \<in> repLang A" by (rule repLang.rep_more)
  with uv(1) show "c # w \<in> repLang A" by simp
qed

lemma in_catLang: "w \<in> catLang A B \<longleftrightarrow> (\<exists>u v. w = u @ v \<and> u \<in> A \<and> v \<in> B)"
  by (auto simp: catLang_def)

lemma deriv_denote: "w \<in> denote (deriv c r) \<longleftrightarrow> c # w \<in> denote r"
proof (induction r arbitrary: w)
  case (RSeq r q)
  have "w \<in> denote (deriv c (RSeq r q)) \<longleftrightarrow>
          (\<exists>u v. w = u @ v \<and> c # u \<in> denote r \<and> v \<in> denote q)
          \<or> ([] \<in> denote r \<and> c # w \<in> denote q)"
    by (cases "nullable r") (simp_all add: in_catLang RSeq nullable_denote)
  also have "\<dots> \<longleftrightarrow> c # w \<in> denote (RSeq r q)"
    by (simp only: denote.simps Cons_in_catLang)
  finally show ?case .
next
  case (RStar r)
  have "w \<in> denote (deriv c (RStar r)) \<longleftrightarrow>
          (\<exists>u v. w = u @ v \<and> c # u \<in> denote r \<and> v \<in> repLang (denote r))"
    by (simp add: in_catLang RStar)
  also have "\<dots> \<longleftrightarrow> c # w \<in> denote (RStar r)"
    by (simp only: denote.simps Cons_in_repLang)
  finally show ?case .
qed auto

lemma matches_denote: "matches r s \<longleftrightarrow> s \<in> denote r"
  by (induction s arbitrary: r) (simp_all add: nullable_denote deriv_denote)

section \<open>What the three patterns accept\<close>

lemma test_denote: "test r s \<longleftrightarrow> s \<in> denote r"
  by (simp add: test_def matches_denote)

lemma repLang_chars: "w \<in> repLang {[c] | c. P c} \<longleftrightarrow> list_all P w"
proof (induction w)
  case Nil
  show ?case by (simp add: repLang.rep_none)
next
  case (Cons a w)
  have "a # w \<in> repLang {[c] | c. P c} \<longleftrightarrow> P a \<and> w \<in> repLang {[c] | c. P c}"
    by (auto simp: Cons_in_repLang)
  with Cons show ?case by simp
qed

lemma slash_not_LineTerminator: "\<not> isLineTerminator slash"
  by (simp add: isLineTerminator_def slash_def cu_def)

lemma isPrefixed_iff: "isPrefixed k \<longleftrightarrow> slash \<in> set k \<and> singleLine k"
proof -
  let ?ok = "\<lambda>c. \<not> isLineTerminator c"
  have "isPrefixed k \<longleftrightarrow> (\<exists>u v. k = u @ slash # v \<and> list_all ?ok u \<and> list_all ?ok v)"
    by (simp add: isPrefixed_def test_denote PrefixPattern_def in_catLang repLang_chars
        slash_def) blast
  also have "\<dots> \<longleftrightarrow> slash \<in> set k \<and> list_all ?ok k"
  proof
    assume "\<exists>u v. k = u @ slash # v \<and> list_all ?ok u \<and> list_all ?ok v"
    then show "slash \<in> set k \<and> list_all ?ok k"
      using slash_not_LineTerminator by auto
  next
    assume a: "slash \<in> set k \<and> list_all ?ok k"
    then obtain u v where "k = u @ slash # v" by (meson split_list)
    with a show "\<exists>u v. k = u @ slash # v \<and> list_all ?ok u \<and> list_all ?ok v"
      by auto
  qed
  also have "\<dots> \<longleftrightarrow> slash \<in> set k \<and> singleLine k"
    by (simp add: singleLine_def list_all_iff list_ex_iff)
  finally show ?thesis .
qed


lemma word_between:
  fixes c :: jschar
  assumes "lo \<le> c" "c \<le> hi"
  shows "c \<in> of_nat ` {unat lo..<Suc (unat hi)}"
proof -
  from assms have "unat c \<in> {unat lo..<Suc (unat hi)}"
    by (simp add: word_le_nat_alt)
  then have "of_nat (unat c) \<in> (of_nat ` {unat lo..<Suc (unat hi)} :: jschar set)"
    by (rule imageI)
  then show ?thesis by simp
qed

lemma upper_range:
  "cu CHR ''A'' \<le> c \<and> c \<le> cu CHR ''Z'' \<longleftrightarrow> c \<in> set (js ''ABCDEFGHIJKLMNOPQRSTUVWXYZ'')"
proof
  assume "cu CHR ''A'' \<le> c \<and> c \<le> cu CHR ''Z''"
  then have "c \<in> of_nat ` {unat (cu CHR ''A'')..<Suc (unat (cu CHR ''Z''))}"
    by (simp add: word_between)
  then show "c \<in> set (js ''ABCDEFGHIJKLMNOPQRSTUVWXYZ'')"
    by (auto simp: cu_def js_def atLeastLessThan_nat_numeral)
next
  assume "c \<in> set (js ''ABCDEFGHIJKLMNOPQRSTUVWXYZ'')"
  then show "cu CHR ''A'' \<le> c \<and> c \<le> cu CHR ''Z''"
    by (auto simp: cu_def js_def)
qed

lemma lower_range:
  "cu CHR ''a'' \<le> c \<and> c \<le> cu CHR ''z'' \<longleftrightarrow> c \<in> set (js ''abcdefghijklmnopqrstuvwxyz'')"
proof
  assume "cu CHR ''a'' \<le> c \<and> c \<le> cu CHR ''z''"
  then have "c \<in> of_nat ` {unat (cu CHR ''a'')..<Suc (unat (cu CHR ''z''))}"
    by (simp add: word_between)
  then show "c \<in> set (js ''abcdefghijklmnopqrstuvwxyz'')"
    by (auto simp: cu_def js_def atLeastLessThan_nat_numeral)
next
  assume "c \<in> set (js ''abcdefghijklmnopqrstuvwxyz'')"
  then show "cu CHR ''a'' \<le> c \<and> c \<le> cu CHR ''z''"
    by (auto simp: cu_def js_def)
qed

lemma digit_range:
  "cu CHR ''0'' \<le> c \<and> c \<le> cu CHR ''9'' \<longleftrightarrow> c \<in> set (js ''0123456789'')"
proof
  assume "cu CHR ''0'' \<le> c \<and> c \<le> cu CHR ''9''"
  then have "c \<in> of_nat ` {unat (cu CHR ''0'')..<Suc (unat (cu CHR ''9''))}"
    by (simp add: word_between)
  then show "c \<in> set (js ''0123456789'')"
    by (auto simp: cu_def js_def atLeastLessThan_nat_numeral)
next
  assume "c \<in> set (js ''0123456789'')"
  then show "cu CHR ''0'' \<le> c \<and> c \<le> cu CHR ''9''"
    by (auto simp: cu_def js_def)
qed

lemma alphanumeric_ranges:
  "alphanumeric c \<longleftrightarrow>
     (cu CHR ''A'' \<le> c \<and> c \<le> cu CHR ''Z'') \<or> (cu CHR ''a'' \<le> c \<and> c \<le> cu CHR ''z'')
     \<or> (cu CHR ''0'' \<le> c \<and> c \<le> cu CHR ''9'')"
proof -
  have "js ''ABCDEFGHIJKLMNOPQRSTUVWXYZabcdefghijklmnopqrstuvwxyz0123456789'' =
        js ''ABCDEFGHIJKLMNOPQRSTUVWXYZ'' @ js ''abcdefghijklmnopqrstuvwxyz'' @ js ''0123456789''"
    by (simp add: js_def)
  then have "alphanumeric c \<longleftrightarrow>
     c \<in> set (js ''ABCDEFGHIJKLMNOPQRSTUVWXYZ'') \<or> c \<in> set (js ''abcdefghijklmnopqrstuvwxyz'')
     \<or> c \<in> set (js ''0123456789'')"
    by (simp add: alphanumeric_def)
  then show ?thesis
    by (simp only: upper_range lower_range digit_range)
qed

lemma alnum_class:
  "inClass [rng CHR ''A'' CHR ''Z'', rng CHR ''a'' CHR ''z'', rng CHR ''0'' CHR ''9''] c
     \<longleftrightarrow> alphanumeric c"
  by (simp add: alphanumeric_ranges rng_def)

lemma name_class:
  "inClass [one CHR ''-'', rng CHR ''A'' CHR ''Z'', rng CHR ''a'' CHR ''z'',
            rng CHR ''0'' CHR ''9'', one CHR ''_'', one CHR ''.''] c
     \<longleftrightarrow> nameChar c"
proof -
  have "nameChar c \<longleftrightarrow> alphanumeric c \<or> c = cu CHR ''-'' \<or> c = cu CHR ''_'' \<or> c = cu CHR ''.''"
    by (simp add: nameChar_def js_def)
  then show ?thesis
    by (auto simp: alphanumeric_ranges rng_def one_def)
qed

lemma alphanumeric_nameChar: "alphanumeric c \<Longrightarrow> nameChar c"
  by (simp add: nameChar_def)

lemma in_catLang_chars:
  "w \<in> catLang A {[c] | c. P c} \<longleftrightarrow> (\<exists>u c. w = u @ [c] \<and> u \<in> A \<and> P c)"
  by (auto simp: in_catLang)

lemma chars_catLang:
  "w \<in> catLang {[c] | c. P c} B \<longleftrightarrow> (\<exists>c v. w = c # v \<and> P c \<and> v \<in> B)"
proof
  assume "w \<in> catLang {[c] | c. P c} B"
  then show "\<exists>c v. w = c # v \<and> P c \<and> v \<in> B"
    by (auto simp: in_catLang)
next
  assume "\<exists>c v. w = c # v \<and> P c \<and> v \<in> B"
  then obtain c v where "w = [c] @ v" "P c" "v \<in> B" by auto
  then show "w \<in> catLang {[c] | c. P c} B"
    unfolding in_catLang by blast
qed

lemma namePattern_denote:
  "test labelKeyNamePattern n \<longleftrightarrow>
     (\<exists>u c. n = u @ [c] \<and> alphanumeric c \<and>
        (u = [] \<or> (\<exists>a m. u = a # m \<and> alphanumeric a \<and> list_all nameChar m)))"
proof -
  have "test labelKeyNamePattern n \<longleftrightarrow>
     (\<exists>u c. n = u @ [c] \<and>
        (u = [] \<or> (\<exists>a m. u = a # m \<and> alphanumeric a \<and> list_all nameChar m)) \<and> alphanumeric c)"
    unfolding test_denote labelKeyNamePattern_def Let_def denote.simps in_catLang_chars
      insert_iff chars_catLang repLang_chars alnum_class name_class ..
  then show ?thesis by blast
qed

lemma namePattern_iff: "test labelKeyNamePattern n \<longleftrightarrow> wellFormedName n"
proof
  assume "test labelKeyNamePattern n"
  then obtain u c where n: "n = u @ [c]" "alphanumeric c"
    and u: "u = [] \<or> (\<exists>a m. u = a # m \<and> alphanumeric a \<and> list_all nameChar m)"
    unfolding namePattern_denote by blast
  from u show "wellFormedName n"
  proof
    assume "u = []"
    with n show ?thesis by (simp add: wellFormedName_def alphanumeric_nameChar)
  next
    assume "\<exists>a m. u = a # m \<and> alphanumeric a \<and> list_all nameChar m"
    then obtain a m where "u = a # m" "alphanumeric a" "list_all nameChar m" by blast
    with n show ?thesis by (simp add: wellFormedName_def alphanumeric_nameChar)
  qed
next
  assume w: "wellFormedName n"
  then have "n \<noteq> []" by (simp add: wellFormedName_def)
  then obtain u c where n: "n = u @ [c]" by (meson rev_exhaust)
  with w have c: "alphanumeric c" by (simp add: wellFormedName_def)
  have "u = [] \<or> (\<exists>a m. u = a # m \<and> alphanumeric a \<and> list_all nameChar m)"
  proof (cases u)
    case Nil
    then show ?thesis by simp
  next
    case (Cons a m)
    with w n show ?thesis by (simp add: wellFormedName_def)
  qed
  with n c show "test labelKeyNamePattern n"
    unfolding namePattern_denote by blast
qed

lemma indexOf_from_eq:
  "indexOf_from xs x i =
     (if x \<in> set xs then i + int (length (takeWhile (\<lambda>y. y \<noteq> x) xs)) else - 1)"
  by (induction xs arbitrary: i) auto

lemma indexOf_eq:
  "indexOf xs x = (if x \<in> set xs then int (length (takeWhile (\<lambda>y. y \<noteq> x) xs)) else - 1)"
  by (simp add: indexOf_def indexOf_from_eq)

lemma length_takeWhile_less:
  "x \<in> set xs \<Longrightarrow> length (takeWhile (\<lambda>y. y \<noteq> x) xs) < length xs"
  by (induction xs) auto

lemma substring_clamped:
  assumes "a \<le> b" "b \<le> length k"
  shows "substring k (int a) (int b) = take (b - a) (drop a k)"
proof -
  let ?L = "int (length k)"
  from assms have a': "max 0 (min (int a) ?L) = int a" by arith
  from assms have b': "max 0 (min (int b) ?L) = int b" by arith
  from assms have lo: "min (int a) (int b) = int a" by arith
  from assms have hi: "max (int a) (int b) = int b" by arith
  from assms have d: "nat (int b - int a) = b - a" by arith
  have "substring k (int a) (int b) = take (nat (int b - int a)) (drop (nat (int a)) k)"
    unfolding substring_def Let_def a' b' lo hi ..
  then show ?thesis
    by (simp only: d nat_int)
qed

lemma substring_take:
  assumes "n \<le> length k"
  shows "substring k 0 (int n) = take n k"
  using substring_clamped [of 0 n k] assms by simp

lemma substring_from_drop:
  assumes "n \<le> length k"
  shows "substring_from k (int n) = drop n k"
  using substring_clamped [of n "length k" k] assms by (simp add: substring_from_def)

lemma substring_prefix:
  assumes "x \<in> set k"
  shows "substring k 0 (indexOf k x) = takeWhile (\<lambda>y. y \<noteq> x) k"
proof -
  let ?n = "length (takeWhile (\<lambda>y. y \<noteq> x) k)"
  from assms have "?n < length k" by (rule length_takeWhile_less)
  then have "substring k 0 (int ?n) = take ?n k"
    by (simp add: substring_take)
  also have "\<dots> = takeWhile (\<lambda>y. y \<noteq> x) k"
    by (rule takeWhile_eq_take [symmetric])
  finally show ?thesis using assms by (simp add: indexOf_eq)
qed

lemma substring_from_name:
  assumes "x \<in> set k"
  shows "substring_from k (indexOf k x + 1) = tl (dropWhile (\<lambda>y. y \<noteq> x) k)"
proof -
  let ?n = "length (takeWhile (\<lambda>y. y \<noteq> x) k)"
  from assms have lt: "?n < length k" by (rule length_takeWhile_less)
  have "int ?n + 1 = int (Suc ?n)" by simp
  then have "substring_from k (int ?n + 1) = drop (Suc ?n) k"
    using lt by (simp only: substring_from_drop Suc_leI)
  also have "\<dots> = tl (drop ?n k)"
    by (simp add: drop_Suc drop_tl)
  also have "\<dots> = tl (dropWhile (\<lambda>y. y \<noteq> x) k)"
    by (simp only: dropWhile_eq_drop [symmetric])
  finally show ?thesis using assms by (simp add: indexOf_eq)
qed

section \<open>The controller: what \<open>check\<close> does to the state and reports\<close>

lemma at_last: "xs \<noteq> [] \<Longrightarrow> at xs (int (length xs) - 1) = Some (last xs)"
  by (cases xs rule: rev_cases) (simp_all add: at_def nth_append)

lemma addIfNeeded_nonempty:
  "labels s \<noteq> [] \<Longrightarrow>
     addIfNeeded s = Inr (if filled (heap s (last (labels s))) then addNewLabel s else s)"
  by (simp add: addIfNeeded_def at_last isFilled_def filled_def)

lemma addIfNeeded_empty: "labels s = [] \<Longrightarrow> addIfNeeded s = Inl TypeError"
  by (simp add: addIfNeeded_def at_def isFilled_def)

lemma check_nonempty:
  assumes "labels s \<noteq> []"
  shows "check labelForm s =
           (let s' = (if filled (heap s (last (labels s))) then addNewLabel s else s)
            in (validateKey labelForm s', s'))"
  using assms by (simp add: check_def addIfNeeded_nonempty Let_def)

lemma check_empty: "labels s = [] \<Longrightarrow> check labelForm s = (Inl TypeError, s)"
  by (simp add: check_def addIfNeeded_empty)

lemma validateKey_throws: "(\<exists>e. validateKey labelForm s = Inl e) \<longleftrightarrow> \<not> usable labelForm"
  by (cases labelForm) (auto simp: validateKey_def Let_def split: option.splits)

lemma validateKey_TypeError: "\<not> usable labelForm \<Longrightarrow> validateKey labelForm s = Inl TypeError"
  by (cases labelForm) (auto simp: validateKey_def Let_def split: option.splits)

lemma validity_validateKey:
  assumes "keyControl form = Some elem"
  shows "\<exists>elem'. validateKey (Form form) s = Inr (Form (form\<lparr>keyControl := Some elem'\<rparr>)) \<and>
     validity elem' =
       (validity elem)
         (''unique'' \<mapsto> \<not> isKeyDuplicated s,
          ''prefixPattern'' \<mapsto> matchesKeyPrefixPattern s (isPrefixed (key (heap s (label s))))
                                    (slashPosition (key (heap s (label s)))),
          ''namePattern'' \<mapsto> matchesKeyNamePattern s (isPrefixed (key (heap s (label s))))
                                    (slashPosition (key (heap s (label s)))),
          ''prefixLength'' \<mapsto> matchesKeyPrefixLength s (isPrefixed (key (heap s (label s))))
                                    (slashPosition (key (heap s (label s)))),
          ''nameLength'' \<mapsto> matchesKeyNameLength s (isPrefixed (key (heap s (label s))))
                                    (slashPosition (key (heap s (label s)))))"
  using assms
  by (simp add: validateKey_def Let_def setValidity_def) (rule exI, rule conjI, rule refl, simp)

lemma fold_count:
  "fold (\<lambda>l d. if P l then d + 1 else d) xs (n :: nat) = n + length (filter P xs)"
  by (induction xs arbitrary: n) simp_all

lemma isKeyDuplicated_iff:
  "isKeyDuplicated s \<longleftrightarrow> key (heap s (label s)) \<noteq> [] \<and> 2 \<le> sameKeyCount s"
proof -
  let ?k = "key (heap s (label s))"
  have "isKeyDuplicated s \<longleftrightarrow>
          1 < length (filter (\<lambda>l. length ?k \<noteq> 0 \<and> key (heap s l) = ?k) (labels s))"
    unfolding isKeyDuplicated_def Let_def fold_count by simp
  then show ?thesis
    by (cases "?k = []") (auto simp: sameKeyCount_def)
qed

lemma heap_addNewLabel: "r < nextRef s \<Longrightarrow> heap (addNewLabel s) r = heap s r"
  by (simp add: addNewLabel_def)

lemma label_addNewLabel: "label (addNewLabel s) = label s"
  by (simp add: addNewLabel_def)

lemma labels_addNewLabel: "labels (addNewLabel s) = labels s @ [nextRef s]"
  by (simp add: addNewLabel_def)

lemma new_addNewLabel: "heap (addNewLabel s) (nextRef s) = new_DeployLabel"
  by (simp add: addNewLabel_def)

lemma allocated_label: "allocated s \<Longrightarrow> label s < nextRef s"
  by (simp add: allocated_def)

lemma allocated_labels: "allocated s \<Longrightarrow> r \<in> set (labels s) \<Longrightarrow> r < nextRef s"
  by (simp add: allocated_def list_all_iff)

lemma key_addNewLabel:
  "allocated s \<Longrightarrow> key (heap (addNewLabel s) (label (addNewLabel s))) = key (heap s (label s))"
  by (simp add: label_addNewLabel heap_addNewLabel allocated_label)

lemma sameKeyCount_addNewLabel:
  assumes "allocated s" "key (heap s (label s)) \<noteq> []"
  shows "sameKeyCount (addNewLabel s) = sameKeyCount s"
proof -
  let ?k = "key (heap s (label s))"
  have old: "filter (\<lambda>r. key (heap (addNewLabel s) r) = ?k) (labels s)
             = filter (\<lambda>r. key (heap s r) = ?k) (labels s)"
    using assms(1) by (intro filter_cong refl) (simp add: heap_addNewLabel allocated_labels)
  have new: "key (heap (addNewLabel s) (nextRef s)) \<noteq> ?k"
    using assms(2) by (simp add: new_addNewLabel new_DeployLabel_def)
  show ?thesis
    unfolding sameKeyCount_def key_addNewLabel [OF assms(1)] labels_addNewLabel
    using old new by simp
qed

lemma isKeyDuplicated_addNewLabel:
  assumes "allocated s"
  shows "isKeyDuplicated (addNewLabel s) = isKeyDuplicated s"
proof (cases "key (heap s (label s)) = []")
  case True
  then show ?thesis
    using assms by (simp add: isKeyDuplicated_iff key_addNewLabel)
next
  case False
  then show ?thesis
    using assms by (simp add: isKeyDuplicated_iff key_addNewLabel sameKeyCount_addNewLabel)
qed

text \<open>
  The five flags that \<open>check\<close> reports, in terms of the state before the call: the entry
  that \<open>addIfNeeded_\<close> may append changes none of them.
\<close>

lemma reported_check:
  assumes "allocated s" "labels s \<noteq> []" "keyControl form = Some elem"
  shows "reported (check (Form form) s) ''unique'' = Some (\<not> isKeyDuplicated s)"
    and "reported (check (Form form) s) ''prefixPattern'' =
           Some (matchesKeyPrefixPattern s (isPrefixed (key (heap s (label s))))
                   (slashPosition (key (heap s (label s)))))"
    and "reported (check (Form form) s) ''namePattern'' =
           Some (matchesKeyNamePattern s (isPrefixed (key (heap s (label s))))
                   (slashPosition (key (heap s (label s)))))"
    and "reported (check (Form form) s) ''prefixLength'' =
           Some (matchesKeyPrefixLength s (isPrefixed (key (heap s (label s))))
                   (slashPosition (key (heap s (label s)))))"
    and "reported (check (Form form) s) ''nameLength'' =
           Some (matchesKeyNameLength s (isPrefixed (key (heap s (label s))))
                   (slashPosition (key (heap s (label s)))))"
proof -
  define s' where "s' = (if filled (heap s (last (labels s))) then addNewLabel s else s)"
  have k: "key (heap s' (label s')) = key (heap s (label s))"
    using assms(1) by (simp add: s'_def key_addNewLabel)
  have d: "isKeyDuplicated s' = isKeyDuplicated s"
    using assms(1) by (simp add: s'_def isKeyDuplicated_addNewLabel)
  have pp: "matchesKeyPrefixPattern s' = matchesKeyPrefixPattern s"
    by (intro ext) (simp add: matchesKeyPrefixPattern_def k)
  have np: "matchesKeyNamePattern s' = matchesKeyNamePattern s"
    by (intro ext) (simp add: matchesKeyNamePattern_def k)
  have pl: "matchesKeyPrefixLength s' = matchesKeyPrefixLength s"
    by (intro ext) (simp add: matchesKeyPrefixLength_def k)
  have nl: "matchesKeyNameLength s' = matchesKeyNameLength s"
    by (intro ext) (simp add: matchesKeyNameLength_def k)
  obtain elem' where f: "validateKey (Form form) s' = Inr (Form (form\<lparr>keyControl := Some elem'\<rparr>))"
    and v: "validity elem' =
       (validity elem)
         (''unique'' \<mapsto> \<not> isKeyDuplicated s',
          ''prefixPattern'' \<mapsto> matchesKeyPrefixPattern s' (isPrefixed (key (heap s' (label s'))))
                                    (slashPosition (key (heap s' (label s')))),
          ''namePattern'' \<mapsto> matchesKeyNamePattern s' (isPrefixed (key (heap s' (label s'))))
                                    (slashPosition (key (heap s' (label s')))),
          ''prefixLength'' \<mapsto> matchesKeyPrefixLength s' (isPrefixed (key (heap s' (label s'))))
                                    (slashPosition (key (heap s' (label s')))),
          ''nameLength'' \<mapsto> matchesKeyNameLength s' (isPrefixed (key (heap s' (label s'))))
                                    (slashPosition (key (heap s' (label s')))))"
    using validity_validateKey [OF assms(3), of s'] by blast
  have c: "check (Form form) s = (Inr (Form (form\<lparr>keyControl := Some elem'\<rparr>)), s')"
    using assms(2) f by (simp add: check_nonempty s'_def)
  show "reported (check (Form form) s) ''unique'' = Some (\<not> isKeyDuplicated s)"
    by (simp add: c reported_def v d)
  show "reported (check (Form form) s) ''prefixPattern'' =
           Some (matchesKeyPrefixPattern s (isPrefixed (key (heap s (label s))))
                   (slashPosition (key (heap s (label s)))))"
    by (simp add: c reported_def v k pp)
  show "reported (check (Form form) s) ''namePattern'' =
           Some (matchesKeyNamePattern s (isPrefixed (key (heap s (label s))))
                   (slashPosition (key (heap s (label s)))))"
    by (simp add: c reported_def v k np)
  show "reported (check (Form form) s) ''prefixLength'' =
           Some (matchesKeyPrefixLength s (isPrefixed (key (heap s (label s))))
                   (slashPosition (key (heap s (label s)))))"
    by (simp add: c reported_def v k pl)
  show "reported (check (Form form) s) ''nameLength'' =
           Some (matchesKeyNameLength s (isPrefixed (key (heap s (label s))))
                   (slashPosition (key (heap s (label s)))))"
    by (simp add: c reported_def v k nl)
qed

lemma valid_pattern_ok: "test labelKeyPrefixPattern (js ''valid-pattern'')"
  by (simp add: test_def labelKeyPrefixPattern_def js_def cu_def rng_def one_def Let_def)

lemma splice_one:
  assumes "n < length xs"
  shows "splice xs (int n) 1 = take n xs @ drop (Suc n) xs"
proof -
  from assms have a: "min (int n) (int (length xs)) = int n" by arith
  from assms have b: "min (max (1::int) 0) (int (length xs) - int n) = 1" by arith
  have c: "nat (int n + 1) = Suc n" by arith
  have "\<not> int n < 0" by simp
  then show ?thesis
    unfolding splice_def Let_def a b by (simp only: if_False a b c nat_int)
qed

lemma stateAfter_check:
  assumes "labels s \<noteq> []"
  shows "stateAfter (check labelForm s) =
           (if filled (heap s (last (labels s))) then addNewLabel s else s)"
  using assms by (simp add: check_nonempty stateAfter_def Let_def)

lemma returned_check:
  assumes "labels s \<noteq> []" "usable labelForm"
  shows "returned (check labelForm s) = Some (stateAfter (check labelForm s))"
proof -
  from assms(2) have "\<exists>form'. validateKey labelForm
      (if filled (heap s (last (labels s))) then addNewLabel s else s) = Inr form'"
    using validateKey_throws [of labelForm] by (metis sum.exhaust)
  then show ?thesis
    using assms(1) by (auto simp: check_nonempty returned_def stateAfter_def Let_def)
qed

lemma thrown_check:
  "thrown (check labelForm s) =
     (if labels s = [] \<or> \<not> usable labelForm then Some TypeError else None)"
proof (cases "labels s = []")
  case True
  then show ?thesis by (simp add: check_empty thrown_def)
next
  case False
  show ?thesis
  proof (cases "usable labelForm")
    case True
    then have "\<exists>form'. validateKey labelForm
        (if filled (heap s (last (labels s))) then addNewLabel s else s) = Inr form'"
      using validateKey_throws [of labelForm] by (metis sum.exhaust)
    with False True show ?thesis
      by (auto simp: check_nonempty thrown_def Let_def)
  next
    case u: False
    with False show ?thesis
      by (simp add: check_nonempty thrown_def Let_def validateKey_TypeError)
  qed
qed

lemma emptyForm_key: "keyControl emptyForm = Some \<lparr>validity = Map.empty\<rparr>"
  by (simp add: emptyForm_def)

lemma blank_new: "blank new_DeployLabel"
  by (simp add: blank_def new_DeployLabel_def)

text \<open>On a key free of line terminators the code splits at the first "/".\<close>

lemma labelName_singleLine:
  assumes "singleLine k"
  shows "(if isPrefixed k then substring_from k (slashPosition k + 1) else k) = nameOf k"
proof (cases "slash \<in> set k")
  case True
  with assms have p: "isPrefixed k" by (simp add: isPrefixed_iff)
  then have "slashPosition k = indexOf k slash" by (simp add: slashPosition_def slash_def)
  with p True show ?thesis
    by (simp add: nameOf_def substring_from_name)
next
  case False
  then show ?thesis by (simp add: isPrefixed_iff nameOf_def)
qed

lemma labelPrefix_singleLine:
  assumes "singleLine k"
  shows "(if isPrefixed k then substring k 0 (slashPosition k) else []) = prefixOf k"
proof (cases "slash \<in> set k")
  case True
  with assms have p: "isPrefixed k" by (simp add: isPrefixed_iff)
  then have "slashPosition k = indexOf k slash" by (simp add: slashPosition_def slash_def)
  with p True show ?thesis
    by (simp add: prefixOf_def substring_prefix)
next
  case False
  then show ?thesis by (simp add: isPrefixed_iff prefixOf_def)
qed

lemma namePattern_singleLine:
  assumes "allocated s" "labels s \<noteq> []" "singleLine (key (heap s (label s)))"
    and "keyControl form = Some elem"
  shows "reported (check (Form form) s) ''namePattern''
           = Some (wellFormedName (nameOf (key (heap s (label s)))))"
proof -
  let ?k = "key (heap s (label s))"
  have "matchesKeyNamePattern s (isPrefixed ?k) (slashPosition ?k)
          = test labelKeyNamePattern
              (if isPrefixed ?k then substring_from ?k (slashPosition ?k + 1) else ?k)"
    by (simp add: matchesKeyNamePattern_def)
  also have "\<dots> = wellFormedName (nameOf ?k)"
    by (simp only: labelName_singleLine [OF assms(3)] namePattern_iff)
  finally show ?thesis
    by (simp add: reported_check(3) [OF assms(1,2,4)])
qed

lemma lengths_singleLine:
  assumes "allocated s" "labels s \<noteq> []" "singleLine (key (heap s (label s)))"
    and "keyControl form = Some elem"
  shows "reported (check (Form form) s) ''prefixLength''
           = Some (length (prefixOf (key (heap s (label s)))) \<le> 253)"
    and "reported (check (Form form) s) ''nameLength''
           = Some (length (nameOf (key (heap s (label s)))) \<le> 63)"
proof -
  let ?k = "key (heap s (label s))"
  have "matchesKeyPrefixLength s (isPrefixed ?k) (slashPosition ?k)
          = (length (if isPrefixed ?k then substring ?k 0 (slashPosition ?k) else []) \<le> 253)"
    by (simp add: matchesKeyPrefixLength_def)
  also have "\<dots> = (length (prefixOf ?k) \<le> 253)"
    by (simp only: labelPrefix_singleLine [OF assms(3)])
  finally show "reported (check (Form form) s) ''prefixLength''
           = Some (length (prefixOf ?k) \<le> 253)"
    by (simp add: reported_check(4) [OF assms(1,2,4)])
  have "matchesKeyNameLength s (isPrefixed ?k) (slashPosition ?k)
          = (length (if isPrefixed ?k then substring_from ?k (slashPosition ?k + 1) else ?k)
               \<le> 63)"
    by (simp add: matchesKeyNameLength_def)
  also have "\<dots> = (length (nameOf ?k) \<le> 63)"
    by (simp only: labelName_singleLine [OF assms(3)])
  finally show "reported (check (Form form) s) ''nameLength''
           = Some (length (nameOf ?k) \<le> 63)"
    by (simp add: reported_check(5) [OF assms(1,2,4)])
qed

lemma dollar_name: "\<not> wellFormedName (nameOf (js ''name$''))"
  by (simp add: wellFormedName_def nameOf_def slash_def alphanumeric_def js_def cu_def)

lemma takeWhile_replicate_append:
  "a \<noteq> x \<Longrightarrow> takeWhile (\<lambda>c. c \<noteq> x) (replicate n a @ x # ys) = replicate n a"
  by (induction n) auto

lemma dropWhile_replicate_append:
  "a \<noteq> x \<Longrightarrow> dropWhile (\<lambda>c. c \<noteq> x) (replicate n a @ x # ys) = x # ys"
  by (induction n) auto

section \<open>The claims\<close>

text \<open>
  Claim C8. For every label key that contains no "/", the \<open>prefixPattern\<close> flag that
  \<open>check\<close> reports is true: the pattern is then tested on the constant "valid-pattern",
  which it accepts. The list is not empty and the store is well formed.
\<close>

theorem C8_prefixPattern_without_slash:
  assumes "allocated s" "labels s \<noteq> []" "slash \<notin> set (key (heap s (label s)))"
  shows "reported (check (Form \<lparr>keyControl = Some elem\<rparr>) s) ''prefixPattern'' = Some True"
proof -
  from assms(3) have "\<not> isPrefixed (key (heap s (label s)))"
    by (simp add: isPrefixed_iff)
  then have "matchesKeyPrefixPattern s (isPrefixed (key (heap s (label s))))
               (slashPosition (key (heap s (label s))))"
    by (simp add: matchesKeyPrefixPattern_def valid_pattern_ok)
  moreover have "keyControl \<lparr>keyControl = Some elem\<rparr> = Some elem" by simp
  ultimately show ?thesis
    using reported_check(2) [OF assms(1,2)] by simp
qed

theorem C8_witness:
  "allocated (stateOf [entry ''name'' ''v'' True, entry '''' '''' True] 0)
   \<and> labels (stateOf [entry ''name'' ''v'' True, entry '''' '''' True] 0) \<noteq> []
   \<and> slash \<notin> set (key (heap (stateOf [entry ''name'' ''v'' True, entry '''' '''' True] 0)
                               (label (stateOf [entry ''name'' ''v'' True, entry '''' '''' True] 0))))
   \<and> reported (check (Form emptyForm) (stateOf [entry ''name'' ''v'' True, entry '''' '''' True] 0))
        ''prefixPattern'' = Some True"
  using C8_prefixPattern_without_slash
    [of "stateOf [entry ''name'' ''v'' True, entry '''' '''' True] 0"
        "\<lparr>validity = Map.empty\<rparr>"]
  by (simp add: allocated_def stateOf_def entry_def js_def cu_def slash_def emptyForm_def)

text \<open>
  Claim C6. For every non-empty list and every entry, \<open>isRemovable\<close> is true exactly when
  the entry is editable and is not, by identity, the last element of the list; for the last
  element it is false whatever \<open>editable\<close> is.
\<close>

theorem C6_isRemovable:
  assumes "labels s \<noteq> []"
  shows "(isRemovable s \<longleftrightarrow> editable (heap s (label s)) \<and> label s \<noteq> last (labels s))
         \<and> (label s = last (labels s) \<longrightarrow> \<not> isRemovable s)"
  using assms by (simp add: isRemovable_def Let_def at_last)

theorem C6_witness:
  "labels (stateOf [entry ''a'' ''x'' True, entry ''b'' '''' True] 0) \<noteq> []
   \<and> isRemovable (stateOf [entry ''a'' ''x'' True, entry ''b'' '''' True] 0)
   \<and> \<not> isRemovable (stateOf [entry ''a'' ''x'' True, entry ''b'' '''' True] 1)"
  using C6_isRemovable [of "stateOf [entry ''a'' ''x'' True, entry ''b'' '''' True] 0"]
    C6_isRemovable [of "stateOf [entry ''a'' ''x'' True, entry ''b'' '''' True] 1"]
  by (simp add: stateOf_def entry_def)

text \<open>
  Claim C7. \<open>deleteLabel\<close> removes exactly the first occurrence, by identity, of the
  current entry from the list, and leaves the list (and the whole state) unchanged when
  the entry is not in it; it touches no label.
\<close>

theorem C7_deleteLabel:
  "(label s \<notin> set (labels s) \<longrightarrow> deleteLabel s = s)
   \<and> (label s \<in> set (labels s) \<longrightarrow>
        (\<exists>before after. labels s = before @ label s # after \<and> label s \<notin> set before
           \<and> labels (deleteLabel s) = before @ after))
   \<and> heap (deleteLabel s) = heap s \<and> label (deleteLabel s) = label s"
proof (cases "label s \<in> set (labels s)")
  case False
  then show ?thesis
    by (simp add: deleteLabel_def indexOf_eq)
next
  case True
  let ?before = "takeWhile (\<lambda>y. y \<noteq> label s) (labels s)"
  let ?n = "length ?before"
  from True have n: "?n < length (labels s)" by (rule length_takeWhile_less)
  from True have idx: "indexOf (labels s) (label s) = int ?n" by (simp add: indexOf_eq)
  have d: "deleteLabel s = s\<lparr>labels := take ?n (labels s) @ drop (Suc ?n) (labels s)\<rparr>"
    by (simp add: deleteLabel_def idx splice_one [OF n])
  have t: "take ?n (labels s) = ?before" by (rule takeWhile_eq_take [symmetric])
  have "dropWhile (\<lambda>y. y \<noteq> label s) (labels s) = drop ?n (labels s)"
    by (rule dropWhile_eq_drop)
  moreover from True have "dropWhile (\<lambda>y. y \<noteq> label s) (labels s) \<noteq> []"
    by (simp add: dropWhile_eq_Nil_conv)
  moreover have "hd (dropWhile (\<lambda>y. y \<noteq> label s) (labels s)) = label s"
    using True hd_dropWhile [of "\<lambda>y. y \<noteq> label s" "labels s"]
    by (simp add: dropWhile_eq_Nil_conv)
  ultimately have dr: "drop ?n (labels s) = label s # drop (Suc ?n) (labels s)"
    by (metis drop_Suc hd_Cons_tl tl_drop)
  have "labels s = ?before @ drop ?n (labels s)"
    by (metis append_take_drop_id t)
  with dr have split: "labels s = ?before @ label s # drop (Suc ?n) (labels s)" by simp
  have nb: "label s \<notin> set ?before"
    by (auto dest: set_takeWhileD)
  have "labels (deleteLabel s) = ?before @ drop (Suc ?n) (labels s)"
    by (simp add: d t)
  with split nb True show ?thesis
    by (auto simp: d)
qed

theorem C7_witness:
  "label \<lparr>heap = (\<lambda>_. new_DeployLabel), nextRef = 2, label = 0, labels = [1, 0, 1, 0]\<rparr>
     \<in> set (labels \<lparr>heap = (\<lambda>_. new_DeployLabel), nextRef = 2, label = 0, labels = [1, 0, 1, 0]\<rparr>)
   \<and> labels (deleteLabel
        \<lparr>heap = (\<lambda>_. new_DeployLabel), nextRef = 2, label = 0, labels = [1, 0, 1, 0]\<rparr>)
      = [1, 1, 0]
   \<and> label \<lparr>heap = (\<lambda>_. new_DeployLabel), nextRef = 3, label = 2, labels = [1, 0]\<rparr>
     \<notin> set (labels \<lparr>heap = (\<lambda>_. new_DeployLabel), nextRef = 3, label = 2, labels = [1, 0]\<rparr>)
   \<and> labels (deleteLabel
        \<lparr>heap = (\<lambda>_. new_DeployLabel), nextRef = 3, label = 2, labels = [1, 0]\<rparr>)
      = [1, 0]"
  using C7_deleteLabel
      [of "\<lparr>heap = (\<lambda>_. new_DeployLabel), nextRef = 2, label = 0, labels = [1, 0, 1, 0]\<rparr>"]
    C7_deleteLabel
      [of "\<lparr>heap = (\<lambda>_. new_DeployLabel), nextRef = 3, label = 2, labels = [1, 0]\<rparr>"]
  by (simp add: deleteLabel_def indexOf_def splice_def)

text \<open>
  Claim C5. For every non-empty list: if the last entry is filled, \<open>check\<close> appends
  exactly one entry at the end, the blank label that \<open>new DeployLabel()\<close> returns, and the
  list grows by one; if the last entry has an empty key or an empty \<open>value()\<close>, the list
  is unchanged. This is the state that the call leaves for every handle, also one on which
  \<open>validateKey_\<close> throws afterwards; with no form, or a form that has its key control,
  the call returns with it.
\<close>

theorem C5_auto_append:
  assumes "labels s \<noteq> []"
  shows "(usable labelForm \<longrightarrow>
            returned (check labelForm s) = Some (stateAfter (check labelForm s)))
         \<and> (if filled (heap s (last (labels s)))
            then labels (stateAfter (check labelForm s)) = labels s @ [nextRef s]
                 \<and> blank (heap (stateAfter (check labelForm s)) (nextRef s))
                 \<and> length (labels (stateAfter (check labelForm s))) = Suc (length (labels s))
            else labels (stateAfter (check labelForm s)) = labels s
                 \<and> length (labels (stateAfter (check labelForm s))) = length (labels s))"
  using assms
  by (simp add: returned_check stateAfter_check labels_addNewLabel new_addNewLabel blank_new)

theorem C5_witness:
  "labels (stateOf [entry ''a'' ''x'' False] 0) \<noteq> []
   \<and> filled (heap (stateOf [entry ''a'' ''x'' False] 0)
               (last (labels (stateOf [entry ''a'' ''x'' False] 0))))
   \<and> usable Undefined
   \<and> map_option labels (returned (check Undefined (stateOf [entry ''a'' ''x'' False] 0)))
       = Some [0, 1]
   \<and> labels (stateAfter (check Null (stateOf [entry ''a'' ''x'' False] 0))) = [0, 1]
   \<and> labels (stateOf [entry ''a'' '''' False] 0) \<noteq> []
   \<and> \<not> filled (heap (stateOf [entry ''a'' '''' False] 0)
               (last (labels (stateOf [entry ''a'' '''' False] 0))))
   \<and> map_option labels (returned (check Undefined (stateOf [entry ''a'' '''' False] 0)))
       = Some [0]"
  using C5_auto_append [of "stateOf [entry ''a'' ''x'' False] 0" Undefined]
    C5_auto_append [of "stateOf [entry ''a'' ''x'' False] 0" Null]
    C5_auto_append [of "stateOf [entry ''a'' '''' False] 0" Undefined]
  by (auto simp: stateOf_def entry_def filled_def js_def cu_def)

text \<open>
  Claim C10. For every non-empty list, \<open>check\<close> (with or without a form) removes,
  reorders and replaces no entry and changes no label that existed before the call: the
  list afterwards is the old one, or the old one with one entry appended, and the current
  entry is the same. This holds of the state that the call leaves for every handle, also
  one on which \<open>validateKey_\<close> throws; with no form, or a form that has its key control,
  the call returns with that state.
\<close>

theorem C10_check_frame:
  assumes "allocated s" "labels s \<noteq> []"
  shows "(usable labelForm \<longrightarrow>
            returned (check labelForm s) = Some (stateAfter (check labelForm s)))
         \<and> (labels (stateAfter (check labelForm s)) = labels s
              \<or> (\<exists>r. labels (stateAfter (check labelForm s)) = labels s @ [r]))
         \<and> (\<forall>r \<in> set (labels s). heap (stateAfter (check labelForm s)) r = heap s r)
         \<and> (\<forall>r < nextRef s. heap (stateAfter (check labelForm s)) r = heap s r)
         \<and> label (stateAfter (check labelForm s)) = label s"
  using assms
  by (simp add: returned_check stateAfter_check labels_addNewLabel label_addNewLabel
      heap_addNewLabel allocated_labels)

theorem C10_witness:
  "allocated (stateOf [entry ''a'' ''x'' False, entry ''b'' ''y'' True] 0)
   \<and> labels (stateOf [entry ''a'' ''x'' False, entry ''b'' ''y'' True] 0) \<noteq> []
   \<and> usable (Form emptyForm)
   \<and> (\<exists>s'. returned (check (Form emptyForm)
                (stateOf [entry ''a'' ''x'' False, entry ''b'' ''y'' True] 0)) = Some s'
          \<and> labels s' = [0, 1, 2]
          \<and> heap s' 0 = entry ''a'' ''x'' False \<and> heap s' 1 = entry ''b'' ''y'' True
          \<and> label s' = 0)"
  using C10_check_frame [of "stateOf [entry ''a'' ''x'' False, entry ''b'' ''y'' True] 0"
      "Form emptyForm"]
  by (simp add: returned_check stateAfter_check emptyForm_def allocated_def stateOf_def
      filled_def entry_def addNewLabel_def js_def cu_def)

text \<open>
  Claim C2, amended. \<open>check\<close> raises (a TypeError) exactly when the list is empty, or the
  form handle is \<open>null\<close>, or it is a form without a key control. So for every non-empty
  list, every current entry and every handle that is \<open>undefined\<close> or a form with its key
  control, \<open>check\<close> returns normally, and with such a form each of the five flags is
  reported as a boolean. The counterexamples below are the empty list (the read of the
  last entry gives \<open>undefined\<close> and \<open>isFilled_\<close> throws), and on a non-empty list the
  handle \<open>null\<close> and a form without a key control.
\<close>

theorem C2_check_returns:
  "(thrown (check labelForm s) = None \<longleftrightarrow> labels s \<noteq> [] \<and> usable labelForm)
   \<and> (thrown (check labelForm s) \<noteq> None \<longrightarrow> thrown (check labelForm s) = Some TypeError)
   \<and> (labels s \<noteq> [] \<and> usable labelForm \<longrightarrow> returned (check labelForm s) \<noteq> None)
   \<and> (labels s \<noteq> [] \<longrightarrow>
        list_all (\<lambda>name. reported (check (Form \<lparr>keyControl = Some elem\<rparr>) s) name \<noteq> None)
          flagNames)"
proof -
  define s' where "s' = (if filled (heap s (last (labels s))) then addNewLabel s else s)"
  have "list_all (\<lambda>name. reported (check (Form \<lparr>keyControl = Some elem\<rparr>) s) name \<noteq> None)
          flagNames" if ne: "labels s \<noteq> []"
  proof -
    have kc: "keyControl \<lparr>keyControl = Some elem\<rparr> = Some elem" by simp
    obtain elem' where f: "validateKey (Form \<lparr>keyControl = Some elem\<rparr>) s'
        = Inr (Form (\<lparr>keyControl = Some elem\<rparr>\<lparr>keyControl := Some elem'\<rparr>))"
      and v: "validity elem' =
       (validity elem)
         (''unique'' \<mapsto> \<not> isKeyDuplicated s',
          ''prefixPattern'' \<mapsto> matchesKeyPrefixPattern s' (isPrefixed (key (heap s' (label s'))))
                                    (slashPosition (key (heap s' (label s')))),
          ''namePattern'' \<mapsto> matchesKeyNamePattern s' (isPrefixed (key (heap s' (label s'))))
                                    (slashPosition (key (heap s' (label s')))),
          ''prefixLength'' \<mapsto> matchesKeyPrefixLength s' (isPrefixed (key (heap s' (label s'))))
                                    (slashPosition (key (heap s' (label s')))),
          ''nameLength'' \<mapsto> matchesKeyNameLength s' (isPrefixed (key (heap s' (label s'))))
                                    (slashPosition (key (heap s' (label s')))))"
      using validity_validateKey [OF kc, of s'] by blast
    have "check (Form \<lparr>keyControl = Some elem\<rparr>) s
            = (Inr (Form (\<lparr>keyControl = Some elem\<rparr>\<lparr>keyControl := Some elem'\<rparr>)), s')"
      using ne f by (simp add: check_nonempty s'_def)
    then show ?thesis
      by (simp add: reported_def v flagNames_def)
  qed
  moreover have "labels s \<noteq> [] \<and> usable labelForm \<longrightarrow> returned (check labelForm s) \<noteq> None"
    by (simp add: returned_check)
  ultimately show ?thesis
    by (simp add: thrown_check)
qed

theorem C2_witness:
  "labels (stateOf [entry '''' '''' True] 0) \<noteq> []
   \<and> usable (Form emptyForm)
   \<and> thrown (check (Form emptyForm) (stateOf [entry '''' '''' True] 0)) = None
   \<and> returned (check (Form emptyForm) (stateOf [entry '''' '''' True] 0)) \<noteq> None
   \<and> reported (check (Form emptyForm) (stateOf [entry '''' '''' True] 0)) ''unique'' \<noteq> None
   \<and> reported (check (Form emptyForm) (stateOf [entry '''' '''' True] 0)) ''nameLength'' \<noteq> None
   \<and> usable Undefined
   \<and> thrown (check Undefined (stateOf [entry '''' '''' True] 0)) = None"
  using C2_check_returns [of "Form emptyForm" "stateOf [entry '''' '''' True] 0"
      "\<lparr>validity = Map.empty\<rparr>"]
    C2_check_returns [of Undefined "stateOf [entry '''' '''' True] 0"]
  by (simp add: flagNames_def stateOf_def emptyForm_def)

theorem C2_raises_counterexample:
  "thrown (check Undefined \<lparr>heap = (\<lambda>_. new_DeployLabel), nextRef = 1, label = 0, labels = []\<rparr>)
     = Some TypeError
   \<and> thrown (check (Form emptyForm)
       \<lparr>heap = (\<lambda>_. new_DeployLabel), nextRef = 1, label = 0, labels = []\<rparr>)
     = Some TypeError
   \<and> thrown (check Null (stateOf [entry ''a'' '''' True] 0)) = Some TypeError
   \<and> thrown (check (Form \<lparr>keyControl = None\<rparr>) (stateOf [entry ''a'' '''' True] 0))
     = Some TypeError"
  by (simp add: thrown_def check_def addIfNeeded_def at_def isFilled_def validateKey_def
      stateOf_def entry_def Let_def)

text \<open>
  Claim C4. The \<open>unique\<close> flag that \<open>check\<close> reports is true unless the current key is
  non-empty and two or more entries of the list (the current entry counts when it is in
  the list) have that key; an empty key is never a duplicate. For the list of keys "a",
  "a", "" the flag is false when either "a" entry is the current one; for the keys "a",
  "b" it is true for both.
\<close>

theorem C4_unique:
  "(allocated s \<and> labels s \<noteq> [] \<longrightarrow>
      reported (check (Form \<lparr>keyControl = Some elem\<rparr>) s) ''unique''
        = Some (\<not> (key (heap s (label s)) \<noteq> [] \<and> 2 \<le> sameKeyCount s)))
   \<and> (cur < 2 \<longrightarrow>
        reported (check (Form \<lparr>keyControl = Some elem\<rparr>)
          (stateOf [\<lparr>key = js ''a'', valueFn = v1, editable = e1\<rparr>,
                    \<lparr>key = js ''a'', valueFn = v2, editable = e2\<rparr>,
                    \<lparr>key = js '''', valueFn = v3, editable = e3\<rparr>] cur)) ''unique''
          = Some False)
   \<and> (cur < 2 \<longrightarrow>
        reported (check (Form \<lparr>keyControl = Some elem\<rparr>)
          (stateOf [\<lparr>key = js ''a'', valueFn = v1, editable = e1\<rparr>,
                    \<lparr>key = js ''b'', valueFn = v2, editable = e2\<rparr>] cur)) ''unique''
          = Some True)"
proof (intro conjI impI)
  have kc: "keyControl \<lparr>keyControl = Some elem\<rparr> = Some elem" by simp
  assume "allocated s \<and> labels s \<noteq> []"
  then show "reported (check (Form \<lparr>keyControl = Some elem\<rparr>) s) ''unique''
        = Some (\<not> (key (heap s (label s)) \<noteq> [] \<and> 2 \<le> sameKeyCount s))"
    by (simp add: reported_check(1) [OF _ _ kc] isKeyDuplicated_iff)
next
  let ?s = "stateOf [\<lparr>key = js ''a'', valueFn = v1, editable = e1\<rparr>,
                    \<lparr>key = js ''a'', valueFn = v2, editable = e2\<rparr>,
                    \<lparr>key = js '''', valueFn = v3, editable = e3\<rparr>] cur"
  have kc: "keyControl \<lparr>keyControl = Some elem\<rparr> = Some elem" by simp
  assume c: "cur < 2"
  then have a: "allocated ?s" "labels ?s \<noteq> []"
    by (simp_all add: allocated_def stateOf_def)
  from c have "cur = 0 \<or> cur = 1" by arith
  then have "isKeyDuplicated ?s"
    by (auto simp: isKeyDuplicated_iff sameKeyCount_def stateOf_def js_def)
  then show "reported (check (Form \<lparr>keyControl = Some elem\<rparr>) ?s) ''unique'' = Some False"
    by (simp add: reported_check(1) [OF a kc])
next
  let ?s = "stateOf [\<lparr>key = js ''a'', valueFn = v1, editable = e1\<rparr>,
                    \<lparr>key = js ''b'', valueFn = v2, editable = e2\<rparr>] cur"
  have kc: "keyControl \<lparr>keyControl = Some elem\<rparr> = Some elem" by simp
  assume c: "cur < 2"
  then have a: "allocated ?s" "labels ?s \<noteq> []"
    by (simp_all add: allocated_def stateOf_def)
  from c have "cur = 0 \<or> cur = 1" by arith
  then have "\<not> isKeyDuplicated ?s"
    by (auto simp: isKeyDuplicated_iff sameKeyCount_def stateOf_def js_def cu_def)
  then show "reported (check (Form \<lparr>keyControl = Some elem\<rparr>) ?s) ''unique'' = Some True"
    by (simp add: reported_check(1) [OF a kc])
qed

theorem C4_witness:
  "allocated (stateOf [entry ''k'' ''x'' True, entry ''z'' ''y'' True, entry ''k'' '''' True] 2)
   \<and> labels (stateOf [entry ''k'' ''x'' True, entry ''z'' ''y'' True, entry ''k'' '''' True] 2)
       \<noteq> []
   \<and> sameKeyCount
       (stateOf [entry ''k'' ''x'' True, entry ''z'' ''y'' True, entry ''k'' '''' True] 2) = 2
   \<and> reported (check (Form emptyForm)
        (stateOf [entry ''k'' ''x'' True, entry ''z'' ''y'' True, entry ''k'' '''' True] 2))
        ''unique'' = Some False
   \<and> (1 :: nat) < 2
   \<and> reported (check (Form emptyForm)
          (stateOf [\<lparr>key = js ''a'', valueFn = (\<lambda>_. js ''x''), editable = True\<rparr>,
                    \<lparr>key = js ''a'', valueFn = (\<lambda>_. js ''y''), editable = True\<rparr>,
                    \<lparr>key = js '''', valueFn = (\<lambda>_. js ''''), editable = True\<rparr>] 1)) ''unique''
          = Some False
   \<and> reported (check (Form emptyForm)
          (stateOf [\<lparr>key = js ''a'', valueFn = (\<lambda>_. js ''x''), editable = True\<rparr>,
                    \<lparr>key = js ''b'', valueFn = (\<lambda>_. js ''y''), editable = True\<rparr>] 1)) ''unique''
          = Some True"
  using C4_unique [of "stateOf [entry ''k'' ''x'' True, entry ''z'' ''y'' True, entry ''k'' '''' True] 2"
      "\<lparr>validity = Map.empty\<rparr>" 1 "\<lambda>_. js ''x''" True "\<lambda>_. js ''y''" True
      "\<lambda>_. js ''''" True]
  by (simp add: allocated_def stateOf_def sameKeyCount_def entry_def js_def cu_def
      emptyForm_def)

text \<open>
  Claim C1, amended. For every key free of line terminators, the \<open>namePattern\<close> flag that
  \<open>check\<close> reports is true exactly when the name (the part after the first "/", or the
  whole key when it has no "/") is not empty, starts and ends with an alphanumeric
  character and holds only alphanumerics, \<open>-\<close>, \<open>_\<close> and \<open>.\<close>; the key "name$" yields false.
  The empty name is refused, against the claim: the pattern requires its last
  alphanumeric character (the counterexample below).
\<close>

theorem C1_namePattern:
  assumes "allocated s" "labels s \<noteq> []" "singleLine (key (heap s (label s)))"
  shows "reported (check (Form \<lparr>keyControl = Some elem\<rparr>) s) ''namePattern''
           = Some (wellFormedName (nameOf (key (heap s (label s)))))
         \<and> (key (heap s (label s)) = js ''name$'' \<longrightarrow>
               reported (check (Form \<lparr>keyControl = Some elem\<rparr>) s) ''namePattern'' = Some False)"
proof -
  have "keyControl \<lparr>keyControl = Some elem\<rparr> = Some elem" by simp
  from namePattern_singleLine [OF assms this] dollar_name show ?thesis by simp
qed

theorem C1_witness:
  "allocated (stateOf [entry ''my.domain.com/name'' ''v'' True, entry '''' '''' True] 0)
   \<and> labels (stateOf [entry ''my.domain.com/name'' ''v'' True, entry '''' '''' True] 0) \<noteq> []
   \<and> singleLine (key (heap (stateOf [entry ''my.domain.com/name'' ''v'' True, entry '''' '''' True] 0)
                     (label (stateOf [entry ''my.domain.com/name'' ''v'' True, entry '''' '''' True] 0))))
   \<and> nameOf (key (heap (stateOf [entry ''my.domain.com/name'' ''v'' True, entry '''' '''' True] 0)
                     (label (stateOf [entry ''my.domain.com/name'' ''v'' True, entry '''' '''' True] 0))))
       = js ''name''
   \<and> reported (check (Form emptyForm)
        (stateOf [entry ''my.domain.com/name'' ''v'' True, entry '''' '''' True] 0)) ''namePattern''
       = Some True
   \<and> allocated (stateOf [entry ''name$'' ''v'' True, entry '''' '''' True] 0)
   \<and> labels (stateOf [entry ''name$'' ''v'' True, entry '''' '''' True] 0) \<noteq> []
   \<and> singleLine (key (heap (stateOf [entry ''name$'' ''v'' True, entry '''' '''' True] 0)
                     (label (stateOf [entry ''name$'' ''v'' True, entry '''' '''' True] 0))))
   \<and> reported (check (Form emptyForm)
        (stateOf [entry ''name$'' ''v'' True, entry '''' '''' True] 0)) ''namePattern''
       = Some False"
  using C1_namePattern
      [of "stateOf [entry ''my.domain.com/name'' ''v'' True, entry '''' '''' True] 0"
        "\<lparr>validity = Map.empty\<rparr>"]
    C1_namePattern
      [of "stateOf [entry ''name$'' ''v'' True, entry '''' '''' True] 0"
        "\<lparr>validity = Map.empty\<rparr>"]
  by (simp add: emptyForm_def allocated_def stateOf_def entry_def singleLine_def isLineTerminator_def
      wellFormedName_def nameOf_def slash_def alphanumeric_def nameChar_def js_def cu_def)

theorem C1_empty_name_counterexample:
  "claimedName (nameOf (key (heap (stateOf [entry '''' '''' True] 0)
                                  (label (stateOf [entry '''' '''' True] 0)))))
   \<and> reported (check (Form emptyForm) (stateOf [entry '''' '''' True] 0)) ''namePattern''
       = Some False"
proof -
  have a: "allocated (stateOf [entry '''' '''' True] 0)"
    "labels (stateOf [entry '''' '''' True] 0) \<noteq> []"
    "singleLine (key (heap (stateOf [entry '''' '''' True] 0)
                         (label (stateOf [entry '''' '''' True] 0))))"
    by (simp_all add: allocated_def stateOf_def entry_def singleLine_def js_def)
  show ?thesis
    unfolding namePattern_singleLine [OF a emptyForm_key]
    by (simp add: claimedName_def wellFormedName_def nameOf_def stateOf_def entry_def js_def)
qed

text \<open>
  Claim C3. A key is to be treated as prefixed exactly when it contains a "/", and split
  at the first one. The code decides this with \<open>/^(.*\/.*)$/\<close>, whose \<open>.\<close> refuses line
  terminators (\<open>isPrefixed_iff\<close>): the key "a", line feed, "/b" contains a "/" and is not
  treated as prefixed. Its slash position is \<open>-1\<close>; \<open>prefixPattern\<close> is reported true,
  though the part before the "/" does not match the prefix pattern, and \<open>namePattern\<close>
  false, though the part after the "/" is a well-formed name.
\<close>

theorem C3_line_terminator_key:
  "slash \<in> set (js ''a'' @ 0x000A # js ''/b'')
   \<and> \<not> isPrefixed (js ''a'' @ 0x000A # js ''/b'')
   \<and> slashPosition (js ''a'' @ 0x000A # js ''/b'') = - 1
   \<and> reported (check (Form emptyForm)
        (stateOf [\<lparr>key = js ''a'' @ 0x000A # js ''/b'', valueFn = (\<lambda>_. js ''v''),
                   editable = True\<rparr>, entry '''' '''' True] 0)) ''prefixPattern'' = Some True
   \<and> \<not> test labelKeyPrefixPattern (prefixOf (js ''a'' @ 0x000A # js ''/b''))
   \<and> reported (check (Form emptyForm)
        (stateOf [\<lparr>key = js ''a'' @ 0x000A # js ''/b'', valueFn = (\<lambda>_. js ''v''),
                   editable = True\<rparr>, entry '''' '''' True] 0)) ''namePattern'' = Some False
   \<and> wellFormedName (nameOf (js ''a'' @ 0x000A # js ''/b''))"
proof -
  let ?k = "js ''a'' @ 0x000A # js ''/b''"
  let ?s = "stateOf [\<lparr>key = ?k, valueFn = (\<lambda>_. js ''v''), editable = True\<rparr>,
                     entry '''' '''' True] 0"
  have a: "allocated ?s" "labels ?s \<noteq> []"
    by (simp_all add: allocated_def stateOf_def)
  have k: "key (heap ?s (label ?s)) = ?k"
    by (simp add: stateOf_def)
  have sl: "slash \<in> set ?k"
    by (simp add: slash_def js_def)
  have "\<not> singleLine ?k"
    by (simp add: singleLine_def isLineTerminator_def)
  then have np: "\<not> isPrefixed ?k"
    by (simp add: isPrefixed_iff)
  then have pos: "slashPosition ?k = - 1"
    by (simp add: slashPosition_def)
  have pp: "reported (check (Form emptyForm) ?s) ''prefixPattern'' = Some True"
    unfolding reported_check(2) [OF a emptyForm_key] using np
    by (simp add: matchesKeyPrefixPattern_def valid_pattern_ok stateOf_def)
  have "\<not> test labelKeyNamePattern ?k"
    by (simp add: test_def labelKeyNamePattern_def js_def cu_def rng_def one_def Let_def)
  then have nm: "reported (check (Form emptyForm) ?s) ''namePattern'' = Some False"
    unfolding reported_check(3) [OF a emptyForm_key] using np
    by (simp add: matchesKeyNamePattern_def stateOf_def)
  have pre: "\<not> test labelKeyPrefixPattern (prefixOf ?k)"
    by (simp add: prefixOf_def slash_def test_def labelKeyPrefixPattern_def js_def cu_def
        rng_def one_def Let_def)
  have wf: "wellFormedName (nameOf ?k)"
    by (simp add: nameOf_def slash_def wellFormedName_def alphanumeric_def nameChar_def
        js_def cu_def)
  from sl np pos pp pre nm wf show ?thesis by blast
qed

text \<open>
  Claim C9. The length checks are to bound the prefix by 253 and the name by 63. On a
  key free of line terminators they do (\<open>lengths_singleLine\<close>). The key made of a line
  feed, 253 times "a" and "/b" has a prefix of 254 characters and a name of one, yet
  \<open>prefixLength\<close> is reported true and \<open>nameLength\<close> false: the key is not treated as
  prefixed, by the defect of claim C3.
\<close>

theorem C9_line_terminator_key:
  "length (prefixOf (0x000A # replicate 253 (cu CHR ''a'') @ js ''/b'')) = 254
   \<and> reported (check (Form emptyForm)
        (stateOf [\<lparr>key = 0x000A # replicate 253 (cu CHR ''a'') @ js ''/b'',
                   valueFn = (\<lambda>_. js ''v''), editable = True\<rparr>, entry '''' '''' True] 0))
        ''prefixLength'' = Some True
   \<and> length (nameOf (0x000A # replicate 253 (cu CHR ''a'') @ js ''/b'')) = 1
   \<and> reported (check (Form emptyForm)
        (stateOf [\<lparr>key = 0x000A # replicate 253 (cu CHR ''a'') @ js ''/b'',
                   valueFn = (\<lambda>_. js ''v''), editable = True\<rparr>, entry '''' '''' True] 0))
        ''nameLength'' = Some False"
proof -
  let ?k = "0x000A # replicate 253 (cu CHR ''a'') @ js ''/b''"
  let ?s = "stateOf [\<lparr>key = ?k, valueFn = (\<lambda>_. js ''v''), editable = True\<rparr>,
                     entry '''' '''' True] 0"
  have a: "allocated ?s" "labels ?s \<noteq> []"
    by (simp_all add: allocated_def stateOf_def)
  have k: "key (heap ?s (label ?s)) = ?k"
    by (simp add: stateOf_def)
  have ne: "cu CHR ''a'' \<noteq> slash" "(0x000A :: jschar) \<noteq> slash"
    by (simp_all add: slash_def cu_def)
  have sl: "slash \<in> set ?k"
    by (simp add: slash_def js_def)
  have sb: "js ''/b'' = slash # js ''b''"
    by (simp add: js_def slash_def)
  have tw: "takeWhile (\<lambda>c. c \<noteq> slash) ?k = 0x000A # replicate 253 (cu CHR ''a'')"
    using ne by (simp add: sb takeWhile_replicate_append)
  have dw: "dropWhile (\<lambda>c. c \<noteq> slash) ?k = slash # js ''b''"
    using ne by (simp add: sb dropWhile_replicate_append)
  have p: "length (prefixOf ?k) = 254"
    unfolding prefixOf_def if_P [OF sl] tw by simp
  have n: "length (nameOf ?k) = 1"
    unfolding nameOf_def if_P [OF sl] dw by (simp add: js_def)
  have "\<not> singleLine ?k"
    by (simp add: singleLine_def isLineTerminator_def)
  then have np: "\<not> isPrefixed ?k"
    by (simp add: isPrefixed_iff)
  have pl: "reported (check (Form emptyForm) ?s) ''prefixLength'' = Some True"
    unfolding reported_check(4) [OF a emptyForm_key] using np
    by (simp add: matchesKeyPrefixLength_def stateOf_def)
  have nl: "reported (check (Form emptyForm) ?s) ''nameLength'' = Some False"
    unfolding reported_check(5) [OF a emptyForm_key] using np
    by (simp add: matchesKeyNameLength_def stateOf_def js_def)
  from p pl n nl show ?thesis by blast
qed

end
